theory Spec2Isabelle
  imports Complex_Main "HOL-Library.Log_Nat" "HOL-Library.Word"
begin

section \<open>VarTable: a table printer for the shell\<close>

text \<open>
  The header \<^verbatim>\<open>VarTable.h\<close> defines the class template \<^verbatim>\<open>VarTable<Ts...>\<close>: rows are
  tuples of the column types \<^verbatim>\<open>Ts...\<close>, \<^verbatim>\<open>print\<close> sizes the columns and writes the table to
  a stream. The embedding below follows the header function by function.

  Conventions of the embedding.
  \<^item> The column types are the ones the demo program and the class comment use:
    \<^verbatim>\<open>std::string\<close>, \<^verbatim>\<open>const char*\<close>, \<^verbatim>\<open>int\<close> and \<^verbatim>\<open>double\<close>. A cell is a tagged value. An
    \<^verbatim>\<open>int\<close> is a 32-bit two's complement word, read by \<open>sint\<close>; wider integral column
    types are not modelled.
  \<^item> \<^verbatim>\<open>unsigned int\<close> and \<^verbatim>\<open>size_t\<close> quantities (lengths, widths, paddings) are natural
    numbers: every string is taken to be shorter than \<open>2^32\<close> characters, so the
    conversions between the two unsigned types are the identity. The one subtraction
    on them (the centring of a header) is shown never to go below zero.
  \<^item> The stream is a record of the text written so far and of the formatting state the
    header touches: float notation, precision and adjustment. The field width set by
    \<^verbatim>\<open>std::setw\<close> lasts for the one insertion that follows it, so it is an argument of
    that insertion. The fill character is the blank and integers are written in
    decimal, as on a stream whose other flags were never changed.
  \<^item> The text the standard library writes for a \<^verbatim>\<open>double\<close> under a given notation and
    precision is not part of the header: it is the parameter \<open>numput\<close>. The values of
    type \<^verbatim>\<open>double\<close> are the type parameter \<open>'d\<close>.
  \<^item> \<^verbatim>\<open>assert\<close> is active (the Makefile never defines \<^verbatim>\<open>NDEBUG\<close>): a failing assertion
    is an error value.
\<close>

subsection \<open>Enumerations\<close>

datatype VarTableColumnFormat = AUTO | SCIENTIFIC | FIXED | PERCENT

datatype PrintStyle = BASIC | SIMPLE | EMPTY | FULL

datatype AlignmentStyle = LEFT | RIGHT | INTERNAL

subsection \<open>Cells, errors and the stream\<close>

datatype ctype = TString | TCharPtr | TInt | TDouble

datatype 'd cell = StrC string | CharPtrC string | IntC "32 word" | DblC 'd

fun ctype_of :: "'d cell \<Rightarrow> ctype" where
  "ctype_of (StrC _) = TString"
| "ctype_of (CharPtrC _) = TCharPtr"
| "ctype_of (IntC _) = TInt"
| "ctype_of (DblC _) = TDouble"

text \<open>
  \<open>SchemaMismatch\<close> and \<open>ConfigMismatch\<close> are the two failing assertions (header count,
  length of a per-column list). \<open>NaNToSize\<close> is the conversion of a NaN to \<^verbatim>\<open>size_t\<close>,
  which has no defined result in C++.
\<close>

datatype error = SchemaMismatch | ConfigMismatch | NaNToSize

datatype floatfield = ff_none | ff_scientific | ff_fixed

datatype adjustfield = adj_none | adj_left | adj_right | adj_internal

record stream =
  out :: string
  fmt_float :: floatfield
  fmt_precision :: int
  fmt_adjust :: adjustfield

type_synonym 'd numput = "floatfield \<Rightarrow> int \<Rightarrow> 'd \<Rightarrow> string"

definition emit :: "stream \<Rightarrow> string \<Rightarrow> stream" where
  "emit s x = s\<lparr>out := out s @ x\<rparr>"

definition newline :: string where
  "newline = [CHR 0x0A]"

subsection \<open>The table\<close>

text \<open>
  The fields of the class, with the template parameter pack as \<open>schema\<close>.
\<close>

record 'd VarTable =
  schema :: "ctype list"
  headers :: "string list"
  num_columns :: nat
  static_column_size :: nat
  cell_padding :: nat
  data :: "'d cell list list"
  column_sizes :: "nat list"
  column_format :: "VarTableColumnFormat list"
  print_style :: PrintStyle
  alignment_style :: "AlignmentStyle list"
  precision :: "int list"

text \<open>The constructor: the initialiser list, then the assertion on the header count.\<close>

definition VarTable :: "ctype list \<Rightarrow> string list \<Rightarrow> nat \<Rightarrow> nat \<Rightarrow> error + 'd VarTable" where
  "VarTable ts hs static_size padding =
     (if length hs = length ts
      then Inr \<lparr>schema = ts, headers = hs, num_columns = length ts,
                static_column_size = static_size, cell_padding = padding,
                data = [], column_sizes = [], column_format = [],
                print_style = BASIC, alignment_style = [], precision = []\<rparr>
      else Inl SchemaMismatch)"

definition addRow :: "'d cell list \<Rightarrow> 'd VarTable \<Rightarrow> 'd VarTable" where
  "addRow entries t = t\<lparr>data := data t @ [entries]\<rparr>"

text \<open>
  A setter returns the outcome of its assertion together with the table as the call
  leaves it: the assertion comes before the assignment.
\<close>

definition setColumnFormat ::
  "VarTableColumnFormat list \<Rightarrow> 'd VarTable \<Rightarrow> error option \<times> 'd VarTable" where
  "setColumnFormat fs t =
     (if length fs = length (schema t) then (None, t\<lparr>column_format := fs\<rparr>)
      else (Some ConfigMismatch, t))"

definition setPrintStyle :: "PrintStyle \<Rightarrow> 'd VarTable \<Rightarrow> 'd VarTable" where
  "setPrintStyle p t = t\<lparr>print_style := p\<rparr>"

definition setAlignmentStyle ::
  "AlignmentStyle list \<Rightarrow> 'd VarTable \<Rightarrow> error option \<times> 'd VarTable" where
  "setAlignmentStyle as t =
     (if length as = length (schema t) then (None, t\<lparr>alignment_style := as\<rparr>)
      else (Some ConfigMismatch, t))"

definition setColumnPrecision ::
  "int list \<Rightarrow> 'd VarTable \<Rightarrow> error option \<times> 'd VarTable" where
  "setColumnPrecision ps t =
     (if length ps = length (schema t) then (None, t\<lparr>precision := ps\<rparr>)
      else (Some ConfigMismatch, t))"

subsection \<open>Sizing\<close>

text \<open>
  The three overloads of \<^verbatim>\<open>sizeOfData\<close>: \<^verbatim>\<open>size()\<close> for a \<^verbatim>\<open>std::string\<close>; for an \<^verbatim>\<open>int\<close>
  the value 1 at zero and otherwise \<^verbatim>\<open>std::log10(data) + 1\<close> converted to \<^verbatim>\<open>size_t\<close>;
  the static size for everything else. For a positive value the conversion truncates
  the logarithm plus one. Every positive \<^verbatim>\<open>int\<close> is below \<open>2^31\<close> and is a \<^verbatim>\<open>double\<close>
  exactly, and in that range the truncated \<^verbatim>\<open>double\<close> result is \<open>floorlog 10\<close>, the number
  of decimal digits (the library's logarithm is taken to be exact at the powers of
  ten). For a negative value \<^verbatim>\<open>std::log10\<close> is a NaN.
\<close>

definition sizeOfData :: "nat \<Rightarrow> 'd cell \<Rightarrow> error + nat" where
  "sizeOfData static_size c =
     (case c of
        StrC x \<Rightarrow> Inr (length x)
      | IntC v \<Rightarrow> (if v = 0 then Inr 1
                   else if sint v < 0 then Inl NaNToSize
                   else Inr (floorlog 10 (nat (sint v))))
      | CharPtrC x \<Rightarrow> Inr static_size
      | DblC d \<Rightarrow> Inr static_size)"

text \<open>
  \<^verbatim>\<open>size_each\<close> recurses over the tuple index \<open>I\<close> up to the tuple size, writing into
  the vector \<open>sizes\<close>.
\<close>

function size_each :: "'d VarTable \<Rightarrow> 'd cell list \<Rightarrow> nat list \<Rightarrow> nat \<Rightarrow> error + nat list" where
  "size_each t row sizes I =
     (if length row \<le> I then Inr sizes
      else case sizeOfData (static_column_size t) (row ! I) of
             Inl e \<Rightarrow> Inl e
           | Inr n \<Rightarrow>
               size_each t row
                 (if column_format t \<noteq> [] \<and> column_format t ! I = PERCENT
                  then (sizes[I := n])[I := 6] else sizes[I := n])
                 (I + 1))"
  by pat_completeness auto
termination
  by (relation "measure (\<lambda>(t, row, sizes, I). length row - I)") auto

declare size_each.simps [simp del]

text \<open>
  \<^verbatim>\<open>size_columns\<close>: the member vector is resized to the column count and every entry is
  set to the header's length; then, row by row, \<^verbatim>\<open>size_each\<close> fills the temporary vector
  (created once, zero-filled) and every entry of the member vector is raised to it.
\<close>

fun size_rows :: "'d VarTable \<Rightarrow> 'd cell list list \<Rightarrow> nat list \<Rightarrow> nat list \<Rightarrow> error + nat list" where
  "size_rows t [] tmp sizes = Inr sizes"
| "size_rows t (row # rows) tmp sizes =
     (case size_each t row tmp 0 of
        Inl e \<Rightarrow> Inl e
      | Inr tmp' \<Rightarrow>
          size_rows t rows tmp'
            (map (\<lambda>i. max (sizes ! i) (tmp' ! i)) [0..<num_columns t]))"

definition size_columns :: "'d VarTable \<Rightarrow> error + nat list" where
  "size_columns t =
     size_rows t (data t) (replicate (num_columns t) 0)
       (map (\<lambda>i. length (headers t ! i)) [0..<num_columns t])"

subsection \<open>Writing values to the stream\<close>

text \<open>
  Insertion of a string under a field width: the fill goes after the text when the
  adjustment is \<^verbatim>\<open>left\<close>, before it otherwise. Insertion of a number: \<^verbatim>\<open>internal\<close> puts the
  fill between a leading sign and the digits.
\<close>

definition pad_str :: "adjustfield \<Rightarrow> nat \<Rightarrow> string \<Rightarrow> string" where
  "pad_str a w x =
     (if a = adj_left then x @ replicate (w - length x) CHR '' ''
      else replicate (w - length x) CHR '' '' @ x)"

definition pad_num :: "adjustfield \<Rightarrow> nat \<Rightarrow> string \<Rightarrow> string" where
  "pad_num a w x =
     (if a = adj_left then x @ replicate (w - length x) CHR '' ''
      else if a = adj_internal \<and> x \<noteq> [] \<and> (hd x = CHR ''-'' \<or> hd x = CHR ''+'')
      then hd x # replicate (w - length x) CHR '' '' @ tl x
      else replicate (w - length x) CHR '' '' @ x)"

fun dec_digits :: "nat \<Rightarrow> string" where
  "dec_digits n =
     (if n < 10 then [''0123456789'' ! n]
      else dec_digits (n div 10) @ [''0123456789'' ! (n mod 10)])"

declare dec_digits.simps [simp del]

definition show_int :: "int \<Rightarrow> string" where
  "show_int v = (if v < 0 then CHR ''-'' # dec_digits (nat (- v)) else dec_digits (nat v))"


text \<open>
  The text \<^verbatim>\<open>stream << std::setw(w) << val\<close> appends, under the adjustment \<open>a\<close>,
  the float notation \<open>ff\<close> and the precision \<open>p\<close> of the stream.
\<close>

definition field_text ::
  "'d numput \<Rightarrow> adjustfield \<Rightarrow> floatfield \<Rightarrow> int \<Rightarrow> nat \<Rightarrow> 'd cell \<Rightarrow> string" where
  "field_text numput a ff p w c =
     (case c of
        StrC x \<Rightarrow> pad_str a w x
      | CharPtrC x \<Rightarrow> pad_str a w x
      | IntC v \<Rightarrow> pad_num a w (show_int (sint v))
      | DblC d \<Rightarrow> pad_num a w (numput ff p d))"

definition insert_cell :: "'d numput \<Rightarrow> nat \<Rightarrow> 'd cell \<Rightarrow> stream \<Rightarrow> stream" where
  "insert_cell numput w c s =
     emit s (field_text numput (fmt_adjust s) (fmt_float s) (fmt_precision s) w c)"

subsection \<open>Printing\<close>

text \<open>The character written at the left edge and after every cell.\<close>

definition edge :: "PrintStyle \<Rightarrow> string" where
  "edge p = (if p \<noteq> SIMPLE \<and> p \<noteq> EMPTY then ''|'' else '' '')"

definition rule_line :: "'d VarTable \<Rightarrow> char \<Rightarrow> string" where
  "rule_line t c =
     [c] @ concat (map (\<lambda>i. replicate (column_sizes t ! i + 2 * cell_padding t) CHR ''-'' @ [c])
                       [0..<num_columns t])
     @ newline"

definition print_plus :: "'d VarTable \<Rightarrow> stream \<Rightarrow> stream" where
  "print_plus t s =
     (case print_style t of
        BASIC \<Rightarrow> emit s (rule_line t CHR ''+'')
      | FULL \<Rightarrow> emit s (rule_line t CHR ''+'')
      | SIMPLE \<Rightarrow> emit s (rule_line t CHR '' '')
      | EMPTY \<Rightarrow> s)"

definition justify :: "AlignmentStyle \<Rightarrow> adjustfield" where
  "justify a = (if a = LEFT then adj_left else if a = RIGHT then adj_right else adj_internal)"

definition justify_empty :: "'d cell \<Rightarrow> adjustfield" where
  "justify_empty c = (case c of IntC v \<Rightarrow> adj_right | DblC d \<Rightarrow> adj_right
                      | StrC x \<Rightarrow> adj_left | CharPtrC x \<Rightarrow> adj_left)"

text \<open>
  The body of \<^verbatim>\<open>print_each\<close> for the index \<open>I\<close> of a tuple of size \<open>n\<close>, in three parts:
  the precision and the format are set (each behind an assertion), the cell and the
  edge character are written, the float notation is unset.
\<close>

definition set_flags :: "'d VarTable \<Rightarrow> nat \<Rightarrow> nat \<Rightarrow> stream \<Rightarrow> error + stream" where
  "set_flags t n I s =
     (if precision t \<noteq> [] \<and> length (precision t) \<noteq> n then Inl ConfigMismatch
      else
        let s1 = (if precision t \<noteq> [] then s\<lparr>fmt_precision := precision t ! I\<rparr> else s)
        in if column_format t \<noteq> [] \<and> length (column_format t) \<noteq> n then Inl ConfigMismatch
           else if column_format t \<noteq> [] then
             let s2 = (if column_format t ! I = SCIENTIFIC
                       then s1\<lparr>fmt_float := ff_scientific\<rparr> else s1);
                 s3 = (if column_format t ! I = FIXED
                       then s2\<lparr>fmt_float := ff_fixed\<rparr> else s2)
             in Inr (if column_format t ! I = PERCENT
                     then s3\<lparr>fmt_float := ff_fixed, fmt_precision := 2\<rparr> else s3)
           else Inr s1)"

definition cell_adjust :: "'d VarTable \<Rightarrow> nat \<Rightarrow> 'd cell \<Rightarrow> adjustfield" where
  "cell_adjust t I val =
     (if alignment_style t \<noteq> [] then justify (alignment_style t ! I) else justify_empty val)"

definition put_cell :: "'d numput \<Rightarrow> 'd VarTable \<Rightarrow> 'd cell \<Rightarrow> nat \<Rightarrow> stream \<Rightarrow> stream" where
  "put_cell numput t val I s =
     (let s1 = emit s (replicate (cell_padding t) CHR '' '');
          s2 = s1\<lparr>fmt_adjust := cell_adjust t I val\<rparr>;
          s3 = insert_cell numput (column_sizes t ! I) val s2;
          s4 = emit s3 (replicate (cell_padding t) CHR '' '')
      in emit s4 (edge (print_style t)))"

definition unset_flags :: "'d VarTable \<Rightarrow> stream \<Rightarrow> stream" where
  "unset_flags t s = (if column_format t \<noteq> [] then s\<lparr>fmt_float := ff_none\<rparr> else s)"

function print_each ::
  "'d numput \<Rightarrow> 'd VarTable \<Rightarrow> 'd cell list \<Rightarrow> stream \<Rightarrow> nat \<Rightarrow> error + stream" where
  "print_each numput t row s I =
     (if length row \<le> I then Inr s
      else case set_flags t (length row) I s of
             Inl e \<Rightarrow> Inl e
           | Inr s1 \<Rightarrow>
               print_each numput t row
                 (unset_flags t (put_cell numput t (row ! I) I s1)) (I + 1))"
  by pat_completeness auto
termination
  by (relation "measure (\<lambda>(numput, t, row, s, I). length row - I)") auto

declare print_each.simps [simp del]

text \<open>The header loop of \<^verbatim>\<open>print\<close>: one centred header and the edge character.\<close>

definition print_header :: "'d VarTable \<Rightarrow> stream \<Rightarrow> nat \<Rightarrow> stream" where
  "print_header t s i =
     (let half = column_sizes t ! i div 2 - length (headers t ! i) div 2;
          s1 = emit s (replicate (cell_padding t) CHR '' '');
          s2 = s1\<lparr>fmt_adjust := adj_left\<rparr>;
          s3 = emit s2 (pad_str (fmt_adjust s2) (column_sizes t ! i)
                          (replicate half CHR '' '' @ headers t ! i));
          s4 = emit s3 (replicate (cell_padding t) CHR '' '')
      in emit s4 (edge (print_style t)))"

definition print_headers :: "'d VarTable \<Rightarrow> stream \<Rightarrow> stream" where
  "print_headers t s =
     emit (foldl (print_header t) (emit s (edge (print_style t))) [0..<num_columns t]) newline"

text \<open>The row loop of \<^verbatim>\<open>print\<close>.\<close>

fun print_rows :: "'d numput \<Rightarrow> 'd VarTable \<Rightarrow> 'd cell list list \<Rightarrow> stream \<Rightarrow> error + stream" where
  "print_rows numput t [] s = Inr s"
| "print_rows numput t (row # rows) s =
     (case print_each numput t row (emit s (edge (print_style t))) 0 of
        Inl e \<Rightarrow> Inl e
      | Inr s1 \<Rightarrow>
          print_rows numput t rows
            (if print_style t = FULL then print_plus t (emit s1 newline) else emit s1 newline))"


definition print_lines :: "'d numput \<Rightarrow> 'd VarTable \<Rightarrow> stream \<Rightarrow> error + stream" where
  "print_lines numput t s =
     (let s1 = (if print_style t \<noteq> SIMPLE \<and> print_style t \<noteq> EMPTY then print_plus t s else s);
          s2 = print_headers t s1;
          s3 = (if print_style t \<noteq> EMPTY then print_plus t s2 else s2)
      in (case print_rows numput t (data t) s3 of
            Inl e \<Rightarrow> Inl e
          | Inr s4 \<Rightarrow> Inr (if print_style t = BASIC then print_plus t s4 else s4)))"

text \<open>
  \<^verbatim>\<open>print\<close>: \<^verbatim>\<open>size_columns\<close> stores the widths in the table, then the lines are written.
  The result is the table and the stream as the call leaves them.
\<close>

definition print :: "'d numput \<Rightarrow> 'd VarTable \<Rightarrow> stream \<Rightarrow> error + ('d VarTable \<times> stream)" where
  "print numput t s =
     (case size_columns t of
        Inl e \<Rightarrow> Inl e
      | Inr sizes \<Rightarrow>
          (case print_lines numput (t\<lparr>column_sizes := sizes\<rparr>) s of
             Inl e \<Rightarrow> Inl e
           | Inr s' \<Rightarrow> Inr (t\<lparr>column_sizes := sizes\<rparr>, s')))"

subsection \<open>The text of a line\<close>

text \<open>
  Names for what the lemmas below show \<^verbatim>\<open>print\<close> to write: the header of column \<open>i\<close>
  between its paddings, the header line, a row line made of the texts of its cells (both
  without the final newline), the text of \<^verbatim>\<open>print_plus\<close>, and the precisions a stream can
  carry while a table is printed (the one it starts with, the configured ones, and the
  2 of \<open>PERCENT\<close>).
\<close>

definition header_text :: "'d VarTable \<Rightarrow> nat \<Rightarrow> string" where
  "header_text t i =
     replicate (cell_padding t) CHR '' '' @
     pad_str adj_left (column_sizes t ! i)
       (replicate (column_sizes t ! i div 2 - length (headers t ! i) div 2) CHR '' '' @ headers t ! i) @
     replicate (cell_padding t) CHR '' ''"

definition header_line :: "'d VarTable \<Rightarrow> string" where
  "header_line t =
     edge (print_style t) @
     concat (map (\<lambda>i. header_text t i @ edge (print_style t)) [0..<num_columns t])"

definition row_line :: "'d VarTable \<Rightarrow> string list \<Rightarrow> string" where
  "row_line t cells = edge (print_style t) @ concat (map (\<lambda>c. c @ edge (print_style t)) cells)"

definition cell_field :: "'d numput \<Rightarrow> 'd VarTable \<Rightarrow> floatfield \<times> int \<Rightarrow> nat \<Rightarrow> 'd cell \<Rightarrow> string" where
  "cell_field numput t f i c =
     replicate (cell_padding t) CHR '' '' @
     field_text numput (cell_adjust t i c) (fst f) (snd f) (column_sizes t ! i) c @
     replicate (cell_padding t) CHR '' ''"

definition rule_text :: "'d VarTable \<Rightarrow> string" where
  "rule_text t =
     (case print_style t of
        BASIC \<Rightarrow> rule_line t CHR ''+''
      | FULL \<Rightarrow> rule_line t CHR ''+''
      | SIMPLE \<Rightarrow> rule_line t CHR '' ''
      | EMPTY \<Rightarrow> [])"

definition precisions :: "'d VarTable \<Rightarrow> stream \<Rightarrow> int set" where
  "precisions t s = insert (fmt_precision s) (insert 2 (set (precision t)))"

text \<open>
  \<open>row_cells numput t P row cells\<close>: \<open>cells\<close> are the texts of the cells of \<open>row\<close> between
  their paddings, each written under some float notation and a precision of \<open>P\<close>, and a
  cell of a \<open>PERCENT\<close> column under the fixed notation and the precision 2.
\<close>

definition row_cells :: "'d numput \<Rightarrow> 'd VarTable \<Rightarrow> int set \<Rightarrow> 'd cell list \<Rightarrow> string list \<Rightarrow> bool" where
  "row_cells numput t P row cells \<longleftrightarrow>
     (\<exists>F. cells = map (\<lambda>i. cell_field numput t (F i) i (row ! i)) [0..<length row] \<and>
          (\<forall>i < length row. snd (F i) \<in> P \<and>
             (column_format t \<noteq> [] \<and> column_format t ! i = PERCENT \<longrightarrow> F i = (ff_fixed, 2))))"

text \<open>
  The entry \<^verbatim>\<open>size_each\<close> leaves at index \<open>I\<close> for a cell: the result of \<^verbatim>\<open>sizeOfData\<close>,
  replaced by 6 in a \<open>PERCENT\<close> column.
\<close>

definition cell_size :: "'d VarTable \<Rightarrow> nat \<Rightarrow> 'd cell \<Rightarrow> error + nat" where
  "cell_size t I c =
     (case sizeOfData (static_column_size t) c of
        Inl e \<Rightarrow> Inl e
      | Inr n \<Rightarrow> Inr (if column_format t \<noteq> [] \<and> column_format t ! I = PERCENT then 6 else n))"

subsection \<open>Well-formed tables\<close>

text \<open>
  What the constructor's assertion, the setters' assertions and the types of \<^verbatim>\<open>addRow\<close>
  guarantee of every table a program can build.
\<close>

definition wf :: "'d VarTable \<Rightarrow> bool" where
  "wf t \<longleftrightarrow>
     num_columns t = length (schema t) \<and>
     length (headers t) = num_columns t \<and>
     (column_format t = [] \<or> length (column_format t) = num_columns t) \<and>
     (alignment_style t = [] \<or> length (alignment_style t) = num_columns t) \<and>
     (precision t = [] \<or> length (precision t) = num_columns t) \<and>
     (\<forall>row \<in> set (data t). map ctype_of row = schema t)"

subsection \<open>Programs\<close>

text \<open>
  The calls a program can make on a constructed table, and a sequence of calls, which
  stops at the first failing assertion.
\<close>

datatype 'd call =
    AddRow "'d cell list"
  | SetColumnFormat "VarTableColumnFormat list"
  | SetAlignmentStyle "AlignmentStyle list"
  | SetColumnPrecision "int list"
  | SetPrintStyle PrintStyle

fun perform :: "'d call \<Rightarrow> 'd VarTable \<Rightarrow> error option \<times> 'd VarTable" where
  "perform (AddRow entries) t = (None, addRow entries t)"
| "perform (SetColumnFormat fs) t = setColumnFormat fs t"
| "perform (SetAlignmentStyle as) t = setAlignmentStyle as t"
| "perform (SetColumnPrecision ps) t = setColumnPrecision ps t"
| "perform (SetPrintStyle p) t = (None, setPrintStyle p t)"

fun perform_all :: "'d call list \<Rightarrow> 'd VarTable \<Rightarrow> error + 'd VarTable" where
  "perform_all [] t = Inr t"
| "perform_all (c # cs) t =
     (case perform c t of
        (Some e, t') \<Rightarrow> Inl e
      | (None, t') \<Rightarrow> perform_all cs t')"

subsection \<open>Example tables\<close>

text \<open>
  A stream as the standard library constructs it (precision 6, no flags set). The table
  of the demo program \<^verbatim>\<open>main.cpp\<close>, whose \<^verbatim>\<open>double\<close>s are given by the text the stream
  writes for them: \<open>literal_put\<close> serves tables that set neither format nor precision.
\<close>

definition fresh :: stream where
  "fresh = \<lparr>out = [], fmt_float = ff_none, fmt_precision = 6, fmt_adjust = adj_none\<rparr>"

definition literal_put :: "string numput" where
  "literal_put ff p d = d"

definition demo :: "string VarTable" where
  "demo = \<lparr>schema = [TCharPtr, TDouble, TInt, TCharPtr],
            headers = [''Name'', ''Weight'', ''Age'', ''Brother''],
            num_columns = 4, static_column_size = 10, cell_padding = 1,
            data = [[CharPtrC ''HanMei'', DblC ''160.2'', IntC 16, CharPtrC ''HanHan''],
                    [CharPtrC ''Jim Green'', DblC ''175.3'', IntC 17, CharPtrC ''Hart Green''],
                    [CharPtrC ''Yeqian'', DblC ''100.3'', IntC 4, CharPtrC ''Yeyicheng'']],
            column_sizes = [], column_format = [], print_style = BASIC,
            alignment_style = [], precision = []\<rparr>"

definition demo_out :: string where
  "demo_out =
     ''+------------+------------+-----+------------+\<newline>'' @
     ''|    Name    |   Weight   | Age |   Brother  |\<newline>'' @
     ''+------------+------------+-----+------------+\<newline>'' @
     ''| HanMei     |      160.2 |  16 | HanHan     |\<newline>'' @
     ''| Jim Green  |      175.3 |  17 | Hart Green |\<newline>'' @
     ''| Yeqian     |      100.3 |   4 | Yeyicheng  |\<newline>'' @
     ''+------------+------------+-----+------------+\<newline>''"

text \<open>A one-column table of integers.\<close>

definition ages :: "string VarTable" where
  "ages = \<lparr>schema = [TInt], headers = [''Age''], num_columns = 1, static_column_size = 0,
            cell_padding = 1, data = [[IntC 16], [IntC 4]], column_sizes = [],
            column_format = [], print_style = BASIC, alignment_style = [], precision = []\<rparr>"


text \<open>
  A formatter that shows the flags it is given: the text of the value, then \<open>/g\<close>, \<open>/e\<close>
  or \<open>/f\<close> for the default, the scientific or the fixed notation, then the precision.
\<close>

definition probe_put :: "string numput" where
  "probe_put ff p d =
     d @ (case ff of ff_none \<Rightarrow> ''/g'' | ff_scientific \<Rightarrow> ''/e'' | ff_fixed \<Rightarrow> ''/f'') @ show_int p"

text \<open>A table with a \<open>PERCENT\<close> column and configured precisions.\<close>

definition rates :: "string VarTable" where
  "rates = \<lparr>schema = [TString, TDouble], headers = [''City'', ''Rate''], num_columns = 2,
             static_column_size = 4, cell_padding = 1,
             data = [[StrC ''Oslo'', DblC ''9.5''], [StrC ''Bergen'', DblC ''7'']],
             column_sizes = [], column_format = [AUTO, PERCENT], print_style = BASIC,
             alignment_style = [], precision = [3, 5]\<rparr>"


text \<open>An integer column in the \<open>PERCENT\<close> format.\<close>

definition votes :: "string VarTable" where
  "votes = \<lparr>schema = [TInt], headers = [''Pct''], num_columns = 1, static_column_size = 0,
             cell_padding = 1, data = [[IntC 5]], column_sizes = [],
             column_format = [PERCENT], print_style = BASIC, alignment_style = [], precision = []\<rparr>"

text \<open>Two \<^verbatim>\<open>double\<close> columns, the first in a given format, with no precision configured.\<close>

definition shares :: "VarTableColumnFormat \<Rightarrow> string VarTable" where
  "shares f = \<lparr>schema = [TDouble, TDouble], headers = [''Share'', ''Ratio''], num_columns = 2,
             static_column_size = 8, cell_padding = 1,
             data = [[DblC ''50'', DblC ''0.125'']], column_sizes = [],
             column_format = [f, AUTO], print_style = BASIC, alignment_style = [], precision = []\<rparr>"

section \<open>Properties\<close>

subsection \<open>The demo program\<close>

lemma demo_built:
  "map_sum id (addRow [CharPtrC ''Yeqian'', DblC ''100.3'', IntC 4, CharPtrC ''Yeyicheng''] \<circ>
               addRow [CharPtrC ''Jim Green'', DblC ''175.3'', IntC 17, CharPtrC ''Hart Green''] \<circ>
               addRow [CharPtrC ''HanMei'', DblC ''160.2'', IntC 16, CharPtrC ''HanHan''])
     (VarTable [TCharPtr, TDouble, TInt, TCharPtr] [''Name'', ''Weight'', ''Age'', ''Brother''] 10 1)
   = Inr demo"
  by (simp add: VarTable_def addRow_def demo_def)

lemma demo_print:
  "print literal_put demo fresh =
     Inr (demo\<lparr>column_sizes := [10, 10, 3, 10]\<rparr>, fresh\<lparr>out := demo_out, fmt_adjust := adj_left\<rparr>)"
  by code_simp


subsection \<open>Sizing reads neither the style nor the stored widths\<close>

lemma size_each_end: "length row \<le> I \<Longrightarrow> size_each t row sizes I = Inr sizes"
  by (subst size_each.simps) simp

lemma size_each_err:
  "I < length row \<Longrightarrow> sizeOfData (static_column_size t) (row ! I) = Inl e \<Longrightarrow>
   size_each t row sizes I = Inl e"
  by (subst size_each.simps) simp

lemma size_each_step:
  "I < length row \<Longrightarrow> sizeOfData (static_column_size t) (row ! I) = Inr n \<Longrightarrow>
   size_each t row sizes I =
     size_each t row
       (if column_format t \<noteq> [] \<and> column_format t ! I = PERCENT
        then (sizes[I := n])[I := 6] else sizes[I := n]) (I + 1)"
  by (subst size_each.simps) simp

lemma size_each_cong:
  "static_column_size t = static_column_size u \<Longrightarrow> column_format t = column_format u \<Longrightarrow>
   size_each t row sizes I = size_each u row sizes I"
proof (induction t row sizes I rule: size_each.induct)
  case (1 t row sizes I)
  show ?case
  proof (cases "length row \<le> I")
    case True
    then show ?thesis by (simp add: size_each_end)
  next
    case False
    then have I: "I < length row" by simp
    show ?thesis
    proof (cases "sizeOfData (static_column_size t) (row ! I)")
      case (Inl e)
      moreover from Inl have "sizeOfData (static_column_size u) (row ! I) = Inl e"
        using "1.prems" by simp
      ultimately show ?thesis
        using I by (simp add: size_each_err)
    next
      case (Inr n)
      moreover from Inr have u: "sizeOfData (static_column_size u) (row ! I) = Inr n"
        using "1.prems" by simp
      ultimately show ?thesis
        using "1.IH" [OF False Inr "1.prems"] "1.prems" (2)
        by (simp only: size_each_step [OF I Inr] size_each_step [OF I u])
    qed
  qed
qed

lemma size_rows_cong:
  "static_column_size t = static_column_size u \<Longrightarrow> column_format t = column_format u \<Longrightarrow>
   num_columns t = num_columns u \<Longrightarrow>
   size_rows t rows tmp sizes = size_rows u rows tmp sizes"
proof (induction rows arbitrary: tmp sizes)
  case Nil
  show ?case by simp
next
  case (Cons row rows)
  have e: "size_each t row tmp 0 = size_each u row tmp 0"
    using Cons.prems by (intro size_each_cong)
  show ?case
    using Cons.prems Cons.IH by (simp add: e split: sum.splits)
qed

lemma size_columns_cong:
  "static_column_size t = static_column_size u \<Longrightarrow> column_format t = column_format u \<Longrightarrow>
   num_columns t = num_columns u \<Longrightarrow> headers t = headers u \<Longrightarrow> data t = data u \<Longrightarrow>
   size_columns t = size_columns u"
  by (simp add: size_columns_def size_rows_cong [of t u])

lemma print_column_sizes:
  "print numput (t\<lparr>column_sizes := x\<rparr>) s = print numput t s"
proof -
  have "size_columns (t\<lparr>column_sizes := x\<rparr>) = size_columns t"
    by (rule size_columns_cong) simp_all
  then show ?thesis
    by (simp add: print_def cong: sum.case_cong)
qed

lemma print_InrD:
  "print numput t s = Inr (t', s') \<Longrightarrow>
   \<exists>sizes. size_columns t = Inr sizes \<and> t' = t\<lparr>column_sizes := sizes\<rparr> \<and>
     print_lines numput t' s = Inr s'"
  by (auto simp: print_def split: sum.splits)


subsection \<open>What sizing computes\<close>

lemma emit_simps [simp]:
  "out (emit s x) = out s @ x"
  "fmt_float (emit s x) = fmt_float s"
  "fmt_precision (emit s x) = fmt_precision s"
  "fmt_adjust (emit s x) = fmt_adjust s"
  by (simp_all add: emit_def)

lemma size_each_length:
  "size_each t row sizes I = Inr tmp \<Longrightarrow> length tmp = length sizes"
proof (induction t row sizes I rule: size_each.induct)
  case (1 t row sizes I)
  show ?case
  proof (cases "length row \<le> I")
    case True
    with "1.prems" show ?thesis by (simp add: size_each_end)
  next
    case False
    then have I: "I < length row" by simp
    show ?thesis
    proof (cases "sizeOfData (static_column_size t) (row ! I)")
      case (Inl e)
      with I "1.prems" show ?thesis by (simp add: size_each_err)
    next
      case (Inr n)
      from "1.prems" have "size_each t row
           (if column_format t \<noteq> [] \<and> column_format t ! I = PERCENT
            then (sizes[I := n])[I := 6] else sizes[I := n]) (I + 1) = Inr tmp"
        by (simp only: size_each_step [OF I Inr])
      from "1.IH" [OF False Inr this] show ?thesis by (simp split: if_splits)
    qed
  qed
qed

lemma size_each_nth:
  "size_each t row sizes I = Inr tmp \<Longrightarrow> length row \<le> length sizes \<Longrightarrow>
   (\<forall>j. I \<le> j \<and> j < length row \<longrightarrow> cell_size t j (row ! j) = Inr (tmp ! j)) \<and>
   (\<forall>j < I. tmp ! j = sizes ! j)"
proof (induction t row sizes I rule: size_each.induct)
  case (1 t row sizes I)
  show ?case
  proof (cases "length row \<le> I")
    case True
    with "1.prems" show ?thesis by (auto simp: size_each_end)
  next
    case False
    then have I: "I < length row" by simp
    show ?thesis
    proof (cases "sizeOfData (static_column_size t) (row ! I)")
      case (Inl e)
      with I "1.prems" show ?thesis by (simp add: size_each_err)
    next
      case (Inr n)
      let ?sizes = "if column_format t \<noteq> [] \<and> column_format t ! I = PERCENT
            then (sizes[I := n])[I := 6] else sizes[I := n]"
      from "1.prems" have step: "size_each t row ?sizes (I + 1) = Inr tmp"
        by (simp only: size_each_step [OF I Inr])
      have len: "length row \<le> length ?sizes"
        using "1.prems" by simp
      from "1.IH" [OF False Inr step len]
      have later: "\<forall>j. I + 1 \<le> j \<and> j < length row \<longrightarrow> cell_size t j (row ! j) = Inr (tmp ! j)"
        and earlier: "\<forall>j < I + 1. tmp ! j = ?sizes ! j"
        by blast+
      from earlier have here: "tmp ! I = ?sizes ! I" by simp
      have "I < length sizes" using I "1.prems" by simp
      then have "?sizes ! I = (if column_format t \<noteq> [] \<and> column_format t ! I = PERCENT then 6 else n)"
        by simp
      with here Inr have at_I: "cell_size t I (row ! I) = Inr (tmp ! I)"
        by (simp add: cell_size_def)
      have "\<forall>j. I \<le> j \<and> j < length row \<longrightarrow> cell_size t j (row ! j) = Inr (tmp ! j)"
      proof (intro allI impI)
        fix j assume "I \<le> j \<and> j < length row"
        then consider "j = I" | "I + 1 \<le> j \<and> j < length row" by linarith
        then show "cell_size t j (row ! j) = Inr (tmp ! j)"
          using at_I later by cases blast+
      qed
      moreover have "\<forall>j < I. tmp ! j = sizes ! j"
      proof (intro allI impI)
        fix j assume "j < I"
        with earlier have "tmp ! j = ?sizes ! j" by simp
        with \<open>j < I\<close> show "tmp ! j = sizes ! j" by simp
      qed
      ultimately show ?thesis by blast
    qed
  qed
qed

lemma size_rows_bounds:
  "size_rows t rows tmp sizes = Inr cs \<Longrightarrow> length sizes = num_columns t \<Longrightarrow>
   length tmp = num_columns t \<Longrightarrow> \<forall>row \<in> set rows. length row = num_columns t \<Longrightarrow>
   length cs = num_columns t \<and>
   (\<forall>i < num_columns t. sizes ! i \<le> cs ! i \<and>
      (\<forall>row \<in> set rows. \<exists>m. cell_size t i (row ! i) = Inr m \<and> m \<le> cs ! i))"
proof (induction rows arbitrary: tmp sizes)
  case Nil
  then show ?case by simp
next
  case (Cons row rows)
  from Cons.prems(1) obtain tmp' where
    each: "size_each t row tmp 0 = Inr tmp'" and
    rest: "size_rows t rows tmp' (map (\<lambda>i. max (sizes ! i) (tmp' ! i)) [0..<num_columns t]) = Inr cs"
    by (auto split: sum.splits)
  let ?sizes = "map (\<lambda>i. max (sizes ! i) (tmp' ! i)) [0..<num_columns t]"
  have len': "length tmp' = num_columns t"
    using size_each_length [OF each] Cons.prems(3) by simp
  have row: "length row = num_columns t" using Cons.prems(4) by simp
  have cells: "\<forall>j < num_columns t. cell_size t j (row ! j) = Inr (tmp' ! j)"
    using size_each_nth [OF each] row Cons.prems(3) by simp
  have IH: "length cs = num_columns t \<and>
   (\<forall>i < num_columns t. ?sizes ! i \<le> cs ! i \<and>
      (\<forall>row \<in> set rows. \<exists>m. cell_size t i (row ! i) = Inr m \<and> m \<le> cs ! i))"
    using Cons.IH [OF rest _ len'] Cons.prems(4) by simp
  show ?case
  proof (intro conjI allI impI)
    show "length cs = num_columns t" using IH by blast
  next
    fix i assume i: "i < num_columns t"
    then have m: "max (sizes ! i) (tmp' ! i) \<le> cs ! i" using IH by simp
    then show "sizes ! i \<le> cs ! i" by simp
    show "\<forall>r \<in> set (row # rows). \<exists>m. cell_size t i (r ! i) = Inr m \<and> m \<le> cs ! i"
    proof
      fix r assume "r \<in> set (row # rows)"
      then consider "r = row" | "r \<in> set rows" by auto
      then show "\<exists>m. cell_size t i (r ! i) = Inr m \<and> m \<le> cs ! i"
      proof cases
        case 1
        with cells i m show ?thesis by simp
      next
        case 2
        with IH i show ?thesis by blast
      qed
    qed
  qed
qed

lemma wf_row_length: "wf t \<Longrightarrow> row \<in> set (data t) \<Longrightarrow> length row = num_columns t"
proof -
  assume "wf t" and "row \<in> set (data t)"
  then have "map ctype_of row = schema t" and n: "num_columns t = length (schema t)"
    by (simp_all add: wf_def)
  then have "length (map ctype_of row) = length (schema t)" by simp
  with n show ?thesis by simp
qed

lemma size_columns_bounds:
  assumes "wf t" and "size_columns t = Inr cs"
  shows "length cs = num_columns t"
    and "i < num_columns t \<Longrightarrow> length (headers t ! i) \<le> cs ! i"
    and "i < num_columns t \<Longrightarrow> row \<in> set (data t) \<Longrightarrow>
         \<exists>m. cell_size t i (row ! i) = Inr m \<and> m \<le> cs ! i"
proof -
  have rows: "\<forall>row \<in> set (data t). length row = num_columns t"
    using assms(1) by (simp add: wf_row_length)
  note b = size_rows_bounds [OF assms(2) [unfolded size_columns_def] _ _ rows, simplified]
  show "length cs = num_columns t" using b by blast
  show "i < num_columns t \<Longrightarrow> length (headers t ! i) \<le> cs ! i" using b by auto
  show "i < num_columns t \<Longrightarrow> row \<in> set (data t) \<Longrightarrow>
         \<exists>m. cell_size t i (row ! i) = Inr m \<and> m \<le> cs ! i" using b by blast
qed

lemma size_each_defined:
  "\<forall>c \<in> set row. \<exists>n. sizeOfData (static_column_size t) c = Inr n \<Longrightarrow>
   \<exists>tmp. size_each t row sizes I = Inr tmp"
proof (induction t row sizes I rule: size_each.induct)
  case (1 t row sizes I)
  show ?case
  proof (cases "length row \<le> I")
    case True
    then show ?thesis by (simp add: size_each_end)
  next
    case False
    then have I: "I < length row" by simp
    with "1.prems" obtain n where n: "sizeOfData (static_column_size t) (row ! I) = Inr n"
      by (meson nth_mem)
    from "1.IH" [OF False n "1.prems"] show ?thesis
      by (simp only: size_each_step [OF I n])
  qed
qed

lemma size_rows_defined:
  "\<forall>row \<in> set rows. \<forall>c \<in> set row. \<exists>n. sizeOfData (static_column_size t) c = Inr n \<Longrightarrow>
   \<exists>cs. size_rows t rows tmp sizes = Inr cs"
proof (induction rows arbitrary: tmp sizes)
  case Nil
  show ?case by simp
next
  case (Cons row rows)
  then have "\<forall>c \<in> set row. \<exists>n. sizeOfData (static_column_size t) c = Inr n" by simp
  from size_each_defined [OF this] obtain tmp' where "size_each t row tmp 0 = Inr tmp'" by blast
  moreover from Cons.prems have
    "\<forall>row \<in> set rows. \<forall>c \<in> set row. \<exists>n. sizeOfData (static_column_size t) c = Inr n" by simp
  from Cons.IH [OF this] have "\<exists>cs. size_rows t rows tmp'
      (map (\<lambda>i. max (sizes ! i) (tmp' ! i)) [0..<num_columns t]) = Inr cs" .
  ultimately show ?case by simp
qed

lemma size_columns_defined:
  "\<forall>row \<in> set (data t). \<forall>c \<in> set row. \<forall>v. c = IntC v \<longrightarrow> 0 \<le> sint v \<Longrightarrow>
   \<exists>cs. size_columns t = Inr cs"
proof -
  assume nonneg: "\<forall>row \<in> set (data t). \<forall>c \<in> set row. \<forall>v. c = IntC v \<longrightarrow> 0 \<le> sint v"
  have "\<forall>row \<in> set (data t). \<forall>c \<in> set row. \<exists>n. sizeOfData (static_column_size t) c = Inr n"
  proof (intro ballI)
    fix row c assume "row \<in> set (data t)" "c \<in> set row"
    with nonneg have "\<forall>v. c = IntC v \<longrightarrow> 0 \<le> sint v" by blast
    then show "\<exists>n. sizeOfData (static_column_size t) c = Inr n"
      by (cases c) (auto simp: sizeOfData_def)
  qed
  from size_rows_defined [OF this] show ?thesis
    by (simp add: size_columns_def)
qed

lemma centring_in_range:
  "wf t \<Longrightarrow> size_columns t = Inr cs \<Longrightarrow> i < num_columns t \<Longrightarrow>
   length (headers t ! i) div 2 \<le> cs ! i div 2"
  using size_columns_bounds(2) [of t cs i] by (simp add: div_le_mono)

subsection \<open>What printing writes\<close>

lemma length_pad_str [simp]: "length (pad_str a w x) = max w (length x)"
  by (auto simp: pad_str_def max_def)

lemma length_pad_num [simp]: "length (pad_num a w x) = max w (length x)"
  by (cases x) (auto simp: pad_num_def max_def)





lemma length_edge [simp]: "length (edge p) = 1"
  by (simp add: edge_def)

lemma print_plus_emit: "print_plus t s = emit s (rule_text t)"
  by (cases "print_style t") (simp_all add: print_plus_def rule_text_def emit_def)

lemma print_header_emit:
  "print_header t s i = (emit s (header_text t i @ edge (print_style t)))\<lparr>fmt_adjust := adj_left\<rparr>"
  by (simp add: print_header_def header_text_def emit_def Let_def)

lemma foldl_print_header:
  "out (foldl (print_header t) s [0..<n]) =
     out s @ concat (map (\<lambda>i. header_text t i @ edge (print_style t)) [0..<n]) \<and>
   fmt_float (foldl (print_header t) s [0..<n]) = fmt_float s \<and>
   fmt_precision (foldl (print_header t) s [0..<n]) = fmt_precision s"
  by (induction n) (simp_all add: print_header_emit)

lemma print_headers_out:
  "out (print_headers t s) = out s @ header_line t @ newline"
  "fmt_float (print_headers t s) = fmt_float s"
  "fmt_precision (print_headers t s) = fmt_precision s"
  by (simp_all add: print_headers_def header_line_def foldl_print_header)

lemma print_each_end: "length row \<le> I \<Longrightarrow> print_each numput t row s I = Inr s"
  by (subst print_each.simps) simp

lemma print_each_err:
  "I < length row \<Longrightarrow> set_flags t (length row) I s = Inl e \<Longrightarrow>
   print_each numput t row s I = Inl e"
  by (subst print_each.simps) simp

lemma print_each_step:
  "I < length row \<Longrightarrow> set_flags t (length row) I s = Inr s1 \<Longrightarrow>
   print_each numput t row s I =
     print_each numput t row (unset_flags t (put_cell numput t (row ! I) I s1)) (I + 1)"
  by (subst print_each.simps) simp


lemma set_flags_keeps:
  "set_flags t n I s = Inr s1 \<Longrightarrow> out s1 = out s \<and> fmt_adjust s1 = fmt_adjust s"
  by (auto simp: set_flags_def Let_def split: if_splits)

lemma set_flags_precision:
  "set_flags t n I s = Inr s1 \<Longrightarrow> I < n \<Longrightarrow> fmt_precision s1 \<in> precisions t s"
  by (auto simp: set_flags_def Let_def precisions_def split: if_splits)

lemma set_flags_percent:
  "set_flags t n I s = Inr s1 \<Longrightarrow> column_format t \<noteq> [] \<Longrightarrow> column_format t ! I = PERCENT \<Longrightarrow>
   fmt_float s1 = ff_fixed \<and> fmt_precision s1 = 2"
  by (auto simp: set_flags_def Let_def split: if_splits)

lemma put_cell_out:
  "out (put_cell numput t c I s) =
     out s @ cell_field numput t (fmt_float s, fmt_precision s) I c @ edge (print_style t)"
  "fmt_float (put_cell numput t c I s) = fmt_float s"
  "fmt_precision (put_cell numput t c I s) = fmt_precision s"
  by (simp_all add: put_cell_def insert_cell_def cell_field_def Let_def)

lemma unset_flags_keeps [simp]:
  "out (unset_flags t s) = out s"
  "fmt_precision (unset_flags t s) = fmt_precision s"
  by (simp_all add: unset_flags_def)

lemma precisions_mono:
  "fmt_precision s2 \<in> precisions t s \<Longrightarrow> precisions t s2 \<subseteq> precisions t s"
  by (auto simp: precisions_def)

lemma print_each_out:
  "print_each numput t row s I = Inr s' \<Longrightarrow>
   \<exists>F. out s' =
         out s @ concat (map (\<lambda>i. cell_field numput t (F i) i (row ! i) @ edge (print_style t))
                             [I..<length row]) \<and>
       (\<forall>i. I \<le> i \<and> i < length row \<longrightarrow>
          snd (F i) \<in> precisions t s \<and>
          (column_format t \<noteq> [] \<and> column_format t ! i = PERCENT \<longrightarrow> F i = (ff_fixed, 2))) \<and>
       fmt_precision s' \<in> precisions t s"
proof (induction numput t row s I rule: print_each.induct)
  case (1 numput t row s I)
  show ?case
  proof (cases "length row \<le> I")
    case True
    with "1.prems" have "s' = s" by (simp add: print_each_end)
    with True show ?thesis
      by (intro exI [of _ "\<lambda>i. (ff_fixed, 2)"]) (simp add: precisions_def)
  next
    case False
    then have I: "I < length row" by simp
    show ?thesis
    proof (cases "set_flags t (length row) I s")
      case (Inl e)
      with I "1.prems" show ?thesis by (simp add: print_each_err)
    next
      case (Inr s1)
      let ?s2 = "unset_flags t (put_cell numput t (row ! I) I s1)"
      from "1.prems" have step: "print_each numput t row ?s2 (I + 1) = Inr s'"
        by (simp only: print_each_step [OF I Inr])
      from "1.IH" [OF False Inr step] obtain F where
        out: "out s' = out ?s2 @ concat (map (\<lambda>i. cell_field numput t (F i) i (row ! i) @ edge (print_style t))
                             [I + 1..<length row])" and
        later: "\<forall>i. I + 1 \<le> i \<and> i < length row \<longrightarrow>
          snd (F i) \<in> precisions t ?s2 \<and>
          (column_format t \<noteq> [] \<and> column_format t ! i = PERCENT \<longrightarrow> F i = (ff_fixed, 2))" and
        last: "fmt_precision s' \<in> precisions t ?s2"
        by blast
      have p1: "fmt_precision s1 \<in> precisions t s"
        using set_flags_precision [OF Inr I] .
      have sub: "precisions t ?s2 \<subseteq> precisions t s"
        by (rule precisions_mono) (simp add: put_cell_out p1)
      let ?G = "F(I := (fmt_float s1, fmt_precision s1))"
      have same: "map (\<lambda>i. cell_field numput t (if i = I then (fmt_float s1, fmt_precision s1) else F i) i (row ! i)
                          @ edge (print_style t)) [Suc I..<length row]
          = map (\<lambda>i. cell_field numput t (F i) i (row ! i) @ edge (print_style t)) [Suc I..<length row]"
        by (rule map_cong) auto
      have upt: "[I..<length row] = I # [I + 1..<length row]"
        using I by (simp add: upt_conv_Cons)
      have "out s' = out s @ concat (map (\<lambda>i. cell_field numput t (?G i) i (row ! i) @ edge (print_style t))
                             [I..<length row])"
        unfolding upt using out set_flags_keeps [OF Inr]
        by (simp add: put_cell_out same)
      moreover have "\<forall>i. I \<le> i \<and> i < length row \<longrightarrow>
          snd (?G i) \<in> precisions t s \<and>
          (column_format t \<noteq> [] \<and> column_format t ! i = PERCENT \<longrightarrow> ?G i = (ff_fixed, 2))"
      proof (intro allI impI)
        fix i assume i: "I \<le> i \<and> i < length row"
        show "snd (?G i) \<in> precisions t s \<and>
          (column_format t \<noteq> [] \<and> column_format t ! i = PERCENT \<longrightarrow> ?G i = (ff_fixed, 2))"
        proof (cases "i = I")
          case True
          then show ?thesis using p1 set_flags_percent [OF Inr] by auto
        next
          case False
          with i have "I + 1 \<le> i \<and> i < length row" by simp
          with later sub False show ?thesis by auto
        qed
      qed
      moreover have "fmt_precision s' \<in> precisions t s"
        using last sub by blast
      ultimately show ?thesis by blast
    qed
  qed
qed


lemma row_cells_mono: "row_cells numput t P row cells \<Longrightarrow> P \<subseteq> Q \<Longrightarrow> row_cells numput t Q row cells"
  unfolding row_cells_def by blast

lemma precisions_emit [simp]: "precisions t (emit s x) = precisions t s"
  by (simp add: precisions_def)

lemma print_each_row_cells:
  assumes "print_each numput t row s 0 = Inr s'"
  shows "\<exists>cells. row_cells numput t (precisions t s) row cells \<and>
           out s' = out s @ concat (map (\<lambda>c. c @ edge (print_style t)) cells) \<and>
           fmt_precision s' \<in> precisions t s"
proof -
  from print_each_out [OF assms] obtain F where
    out: "out s' = out s @ concat (map (\<lambda>i. cell_field numput t (F i) i (row ! i) @ edge (print_style t))
                             [0..<length row])" and
    F: "\<forall>i. 0 \<le> i \<and> i < length row \<longrightarrow>
          snd (F i) \<in> precisions t s \<and>
          (column_format t \<noteq> [] \<and> column_format t ! i = PERCENT \<longrightarrow> F i = (ff_fixed, 2))" and
    last: "fmt_precision s' \<in> precisions t s"
    by blast
  let ?cells = "map (\<lambda>i. cell_field numput t (F i) i (row ! i)) [0..<length row]"
  have "row_cells numput t (precisions t s) row ?cells"
    unfolding row_cells_def using F by (intro exI [of _ F]) simp
  moreover have "out s' = out s @ concat (map (\<lambda>c. c @ edge (print_style t)) ?cells)"
    using out by (simp add: comp_def)
  ultimately show ?thesis using last by blast
qed

lemma print_rows_out:
  "print_rows numput t rows s = Inr s' \<Longrightarrow>
   \<exists>ls. list_all2 (row_cells numput t (precisions t s)) rows ls \<and>
        out s' = out s @ concat (map (\<lambda>cells. row_line t cells @ newline @
                                        (if print_style t = FULL then rule_text t else [])) ls) \<and>
        fmt_precision s' \<in> precisions t s"
proof (induction rows arbitrary: s)
  case Nil
  then show ?case by (simp add: precisions_def)
next
  case (Cons row rows)
  let ?after = "\<lambda>s1. if print_style t = FULL then print_plus t (emit s1 newline) else emit s1 newline"
  from Cons.prems obtain s1 where
    each: "print_each numput t row (emit s (edge (print_style t))) 0 = Inr s1" and
    rest: "print_rows numput t rows (?after s1) = Inr s'"
    by (auto split: sum.splits)
  from print_each_row_cells [OF each] obtain cells where
    cells: "row_cells numput t (precisions t s) row cells" and
    out1: "out s1 = out s @ row_line t cells" and
    p1: "fmt_precision s1 \<in> precisions t s"
    by (auto simp: row_line_def)
  have p2: "fmt_precision (?after s1) = fmt_precision s1"
    by (simp add: print_plus_emit)
  then have sub: "precisions t (?after s1) \<subseteq> precisions t s"
    using p1 by (intro precisions_mono) simp
  have out2: "out (?after s1) = out s @ row_line t cells @ newline @
      (if print_style t = FULL then rule_text t else [])"
    using out1 by (simp add: print_plus_emit)
  from Cons.IH [OF rest] obtain ls where
    ls: "list_all2 (row_cells numput t (precisions t (?after s1))) rows ls" and
    out': "out s' = out (?after s1) @ concat (map (\<lambda>cells. row_line t cells @ newline @
                                        (if print_style t = FULL then rule_text t else [])) ls)" and
    p': "fmt_precision s' \<in> precisions t (?after s1)"
    by blast
  have "list_all2 (row_cells numput t (precisions t s)) rows ls"
    using ls sub by (auto elim!: list_all2_mono intro: row_cells_mono)
  with cells have "list_all2 (row_cells numput t (precisions t s)) (row # rows) (cells # ls)"
    by simp
  moreover have "out s' = out s @ concat (map (\<lambda>cells. row_line t cells @ newline @
                                        (if print_style t = FULL then rule_text t else [])) (cells # ls))"
    using out' out2 by simp
  moreover have "fmt_precision s' \<in> precisions t s"
    using p' sub by blast
  ultimately show ?case by blast
qed


lemma print_lines_out:
  assumes "print_lines numput t s = Inr s'"
  shows "\<exists>ls. list_all2 (row_cells numput t (precisions t s)) (data t) ls \<and>
        out s' = out s @ (if print_style t = SIMPLE then [] else rule_text t) @
                 header_line t @ newline @ rule_text t @
                 concat (map (\<lambda>cells. row_line t cells @ newline @
                                        (if print_style t = FULL then rule_text t else [])) ls) @
                 (if print_style t = BASIC then rule_text t else [])"
proof -
  let ?s1 = "if print_style t \<noteq> SIMPLE \<and> print_style t \<noteq> EMPTY then print_plus t s else s"
  let ?s2 = "print_headers t ?s1"
  let ?s3 = "if print_style t \<noteq> EMPTY then print_plus t ?s2 else ?s2"
  from assms obtain s4 where
    rows: "print_rows numput t (data t) ?s3 = Inr s4" and
    s': "s' = (if print_style t = BASIC then print_plus t s4 else s4)"
    by (auto simp: print_lines_def Let_def split: sum.splits)
  have empty: "print_style t = EMPTY \<Longrightarrow> rule_text t = []"
    by (simp add: rule_text_def)
  have out3: "out ?s3 = out s @ (if print_style t = SIMPLE then [] else rule_text t) @
      header_line t @ newline @ rule_text t"
    by (simp add: print_plus_emit print_headers_out empty)
  have p3: "precisions t ?s3 = precisions t s"
    by (simp add: precisions_def print_plus_emit print_headers_out)
  from print_rows_out [OF rows] obtain ls where
    "list_all2 (row_cells numput t (precisions t ?s3)) (data t) ls" and
    "out s4 = out ?s3 @ concat (map (\<lambda>cells. row_line t cells @ newline @
                                        (if print_style t = FULL then rule_text t else [])) ls)"
    by blast
  then have "list_all2 (row_cells numput t (precisions t s)) (data t) ls" and
    "out s4 = out s @ (if print_style t = SIMPLE then [] else rule_text t) @
      header_line t @ newline @ rule_text t @
      concat (map (\<lambda>cells. row_line t cells @ newline @
                                        (if print_style t = FULL then rule_text t else [])) ls)"
    by (simp_all only: p3 out3 append_assoc)
  then show ?thesis
    unfolding s' by (intro exI [of _ ls]) (simp add: print_plus_emit)
qed









lemma precisions_column_sizes [simp]: "precisions (t\<lparr>column_sizes := cs\<rparr>) s = precisions t s"
  by (simp add: precisions_def)


lemma wf_column_sizes [simp]: "wf (t\<lparr>column_sizes := cs\<rparr>) = wf t"
  by (simp add: wf_def)


lemma print_out:
  assumes "print numput t s = Inr (t', s')"
  shows "\<exists>ls. list_all2 (row_cells numput t' (precisions t' s)) (data t') ls \<and>
        out s' = out s @ (if print_style t' = SIMPLE then [] else rule_text t') @
                 header_line t' @ newline @ rule_text t' @
                 concat (map (\<lambda>cells. row_line t' cells @ newline @
                                        (if print_style t' = FULL then rule_text t' else [])) ls) @
                 (if print_style t' = BASIC then rule_text t' else [])"
  using print_InrD [OF assms] print_lines_out by blast

lemma set_rule_line: "set (rule_line t c) \<subseteq> {c, CHR ''-'', CHR 0x0A}"
  by (auto simp: rule_line_def newline_def)

lemma row_cells_percent:
  assumes "row_cells numput t P row cells"
  shows "length cells = length row \<and>
    (\<forall>i < length row. column_format t \<noteq> [] \<and> column_format t ! i = PERCENT \<longrightarrow>
       cells ! i =
         replicate (cell_padding t) CHR '' '' @
         (case row ! i of
            StrC x \<Rightarrow> pad_str (cell_adjust t i (row ! i)) (column_sizes t ! i) x
          | CharPtrC x \<Rightarrow> pad_str (cell_adjust t i (row ! i)) (column_sizes t ! i) x
          | IntC v \<Rightarrow> pad_num (cell_adjust t i (row ! i)) (column_sizes t ! i) (show_int (sint v))
          | DblC d \<Rightarrow> pad_num (cell_adjust t i (row ! i)) (column_sizes t ! i) (numput ff_fixed 2 d)) @
         replicate (cell_padding t) CHR '' '')"
proof -
  from assms obtain F where
    cells: "cells = map (\<lambda>i. cell_field numput t (F i) i (row ! i)) [0..<length row]" and
    F: "\<forall>i < length row. column_format t \<noteq> [] \<and> column_format t ! i = PERCENT \<longrightarrow> F i = (ff_fixed, 2)"
    unfolding row_cells_def by blast
  show ?thesis
  proof (intro conjI allI impI)
    show "length cells = length row" by (simp add: cells)
  next
    fix i assume i: "i < length row"
      and "column_format t \<noteq> [] \<and> column_format t ! i = PERCENT"
    with F have "F i = (ff_fixed, 2)" by blast
    with i have "cells ! i = cell_field numput t (ff_fixed, 2) i (row ! i)"
      by (simp add: cells)
    then show "cells ! i =
         replicate (cell_padding t) CHR '' '' @
         (case row ! i of
            StrC x \<Rightarrow> pad_str (cell_adjust t i (row ! i)) (column_sizes t ! i) x
          | CharPtrC x \<Rightarrow> pad_str (cell_adjust t i (row ! i)) (column_sizes t ! i) x
          | IntC v \<Rightarrow> pad_num (cell_adjust t i (row ! i)) (column_sizes t ! i) (show_int (sint v))
          | DblC d \<Rightarrow> pad_num (cell_adjust t i (row ! i)) (column_sizes t ! i) (numput ff_fixed 2 d)) @
         replicate (cell_padding t) CHR '' ''"
      by (simp add: cell_field_def field_text_def)
  qed
qed

subsection \<open>Constructed tables are well-formed\<close>

lemma wf_VarTable: "VarTable ts hs k pad = Inr t \<Longrightarrow> wf t"
  by (auto simp: VarTable_def wf_def split: if_splits)

lemma wf_perform:
  assumes "wf t" and "perform c t = (None, t')"
    and "\<forall>entries. c = AddRow entries \<longrightarrow> map ctype_of entries = schema t"
  shows "wf t'"
  using assms
  by (cases c)
    (auto simp: wf_def addRow_def setColumnFormat_def setAlignmentStyle_def setColumnPrecision_def
          setPrintStyle_def split: if_splits)

lemma perform_all_style:
  "perform_all cs t0 = Inr t \<Longrightarrow> \<forall>c \<in> set cs. \<forall>p. c \<noteq> SetPrintStyle p \<Longrightarrow>
   print_style t = print_style t0"
proof (induction cs arbitrary: t0)
  case Nil
  then show ?case by simp
next
  case (Cons c cs)
  from Cons.prems(1) obtain t1 where
    c: "perform c t0 = (None, t1)" and rest: "perform_all cs t1 = Inr t"
    by (auto split: prod.splits option.splits)
  from c Cons.prems(2) have "print_style t1 = print_style t0"
    by (cases c)
      (auto simp: addRow_def setColumnFormat_def setAlignmentStyle_def setColumnPrecision_def
            split: if_splits)
  moreover from Cons.IH [OF rest] Cons.prems(2) have "print_style t = print_style t1"
    by simp
  ultimately show ?case by simp
qed

section \<open>The claims\<close>

text \<open>
  C1, as stated: every column's width is at least the header length and the display
  length of every cell of the column, and a \<open>PERCENT\<close> column has a width of at least 6.
  The display length is the one the sizing pass computes (\<open>cell_size\<close>: the result of
  \<^verbatim>\<open>sizeOfData\<close>, replaced by 6 in a \<open>PERCENT\<close> column). The override to 6 is applied
  per row, so a \<open>PERCENT\<close> column of a table without rows keeps the width of its header.
  The statement holds with the bound 6 restricted to tables that hold a row.
\<close>

theorem column_width_bounds:
  "wf t \<Longrightarrow> size_columns t = Inr cs \<Longrightarrow> i < num_columns t \<Longrightarrow>
   length (headers t ! i) \<le> cs ! i \<and>
   (\<forall>row \<in> set (data t). \<exists>m. cell_size t i (row ! i) = Inr m \<and> m \<le> cs ! i) \<and>
   (column_format t \<noteq> [] \<and> column_format t ! i = PERCENT \<and> data t \<noteq> [] \<longrightarrow> 6 \<le> cs ! i)"
proof (intro conjI ballI impI)
  assume a: "wf t" "size_columns t = Inr cs" "i < num_columns t"
  show "length (headers t ! i) \<le> cs ! i"
    using size_columns_bounds(2) [OF a] .
  show "\<exists>m. cell_size t i (row ! i) = Inr m \<and> m \<le> cs ! i" if "row \<in> set (data t)" for row
    using size_columns_bounds(3) [OF a that] .
  show "6 \<le> cs ! i" if p: "column_format t \<noteq> [] \<and> column_format t ! i = PERCENT \<and> data t \<noteq> []"
  proof -
    from p obtain row where row: "row \<in> set (data t)" by (cases "data t") auto
    from size_columns_bounds(3) [OF a row] obtain m where
      "cell_size t i (row ! i) = Inr m" and "m \<le> cs ! i" by blast
    with p show ?thesis by (auto simp: cell_size_def split: sum.splits)
  qed
qed


theorem column_width_bounds_witness:
  "wf rates \<and> size_columns rates = Inr [6, 6] \<and> 1 < num_columns rates \<and>
   column_format rates \<noteq> [] \<and> column_format rates ! 1 = PERCENT \<and> data rates \<noteq> [] \<and>
   hd (data rates) \<in> set (data rates) \<and>
   length (headers rates ! 1) \<le> [6, 6] ! 1 \<and>
   (\<exists>m. cell_size rates 1 (hd (data rates) ! 1) = Inr m \<and> m \<le> [6, 6] ! 1) \<and>
   6 \<le> [6, 6 :: nat] ! 1"
proof -
  have w: "wf rates" by (simp add: wf_def rates_def)
  have sz: "size_columns rates = Inr [6, 6]" by code_simp
  have i: "1 < num_columns rates" by (simp add: rates_def)
  have p: "column_format rates \<noteq> [] \<and> column_format rates ! 1 = PERCENT \<and> data rates \<noteq> []"
    by (simp add: rates_def)
  have r: "hd (data rates) \<in> set (data rates)" by (simp add: rates_def)
  from column_width_bounds [OF w sz i] w sz i p r show ?thesis by blast
qed

theorem percent_width_counterexample:
  "wf (rates\<lparr>data := []\<rparr>) \<and> column_format (rates\<lparr>data := []\<rparr>) ! 1 = PERCENT \<and>
   size_columns (rates\<lparr>data := []\<rparr>) = Inr [4, 4] \<and> \<not> 6 \<le> [4, 4 :: nat] ! 1"
proof -
  have "size_columns (rates\<lparr>data := []\<rparr>) = Inr [4, 4]" by code_simp
  then show ?thesis by (simp add: wf_def rates_def)
qed




text \<open>
  C3: printing twice to sinks in the same initial state, with no \<^verbatim>\<open>addRow\<close> and no setter
  in between, writes the same text both times, and the first call changes nothing of
  the table but the stored widths, which every call computes afresh.
\<close>

theorem print_twice:
  "print numput t s = Inr (t', s') \<Longrightarrow>
   print numput t' s = Inr (t', s') \<and> t' = t\<lparr>column_sizes := column_sizes t'\<rparr>"
proof -
  assume p: "print numput t s = Inr (t', s')"
  then obtain sizes where t': "t' = t\<lparr>column_sizes := sizes\<rparr>"
    using print_InrD by blast
  from p t' show ?thesis
    by (simp add: print_column_sizes)
qed

theorem print_twice_witness:
  "print literal_put demo fresh =
     Inr (demo\<lparr>column_sizes := [10, 10, 3, 10]\<rparr>, fresh\<lparr>out := demo_out, fmt_adjust := adj_left\<rparr>) \<and>
   print literal_put (demo\<lparr>column_sizes := [10, 10, 3, 10]\<rparr>) fresh =
     Inr (demo\<lparr>column_sizes := [10, 10, 3, 10]\<rparr>, fresh\<lparr>out := demo_out, fmt_adjust := adj_left\<rparr>) \<and>
   demo\<lparr>column_sizes := [10, 10, 3, 10]\<rparr> =
     demo\<lparr>column_sizes := column_sizes (demo\<lparr>column_sizes := [10, 10, 3, 10]\<rparr>)\<rparr>"
  by (rule conjI [OF demo_print print_twice [OF demo_print]])


text \<open>
  C4: the display length of an integer cell \<open>v\<close> is \<open>\<lfloor>log10 |v|\<rfloor> + 1\<close>, and 1 at zero, for
  negative \<open>v\<close> too. \<^verbatim>\<open>sizeOfData\<close> means to return the length of the integer and takes
  the logarithm of \<open>v\<close> itself, with no absolute value: at \<open>v = -5\<close> the logarithm is a
  NaN, its conversion to \<^verbatim>\<open>size_t\<close> has no defined result, and the length 1 of the
  statement is not what the code computes.
\<close>

theorem sizeOfData_negative:
  "sizeOfData 0 (IntC (- 5) :: unit cell) = Inl NaNToSize \<and>
   sizeOfData 0 (IntC (- 5) :: unit cell) \<noteq> Inr (nat \<lfloor>log 10 (real_of_int \<bar>- 5\<bar>)\<rfloor> + 1)"
  by (simp add: sizeOfData_def)

text \<open>
  C5, as stated: the format and the precision set for one cell are reset before the
  next cell, so that the \<open>PERCENT\<close> precision 2 does not carry into the next column.
  \<^verbatim>\<open>print_each\<close> unsets the float notation after a cell and leaves the precision: with
  no precision configured, the cell after a \<open>PERCENT\<close> cell is written under the
  precision 2 instead of the stream's 6. The two runs below differ in the format of the
  first column alone, and the second column is written differently.
\<close>

theorem precision_carries_over:
  "print probe_put (shares PERCENT) fresh =
     Inr (shares PERCENT\<lparr>column_sizes := [6, 8]\<rparr>,
          fresh\<lparr>out := ''+--------+----------+\<newline>|  Share |   Ratio  |\<newline>+--------+----------+\<newline>'' @
                        ''|  50/f2 | 0.125/g2 |\<newline>+--------+----------+\<newline>'',
                fmt_precision := 2, fmt_adjust := adj_right\<rparr>) \<and>
   print probe_put (shares AUTO) fresh =
     Inr (shares AUTO\<lparr>column_sizes := [8, 8]\<rparr>,
          fresh\<lparr>out := ''+----------+----------+\<newline>|   Share  |   Ratio  |\<newline>+----------+----------+\<newline>'' @
                        ''|    50/g6 | 0.125/g6 |\<newline>+----------+----------+\<newline>'',
                fmt_adjust := adj_right\<rparr>)"
  by code_simp


text \<open>
  C6, as stated: in the \<open>SIMPLE\<close> style no line is written between the header line and
  the first row. \<^verbatim>\<open>print\<close> calls \<^verbatim>\<open>print_plus\<close> after the header in every style but
  \<open>EMPTY\<close>, and in the \<open>SIMPLE\<close> style \<^verbatim>\<open>print_plus\<close> writes a blank, then for every
  column a run of dashes and a blank. That one line, with no \<open>+\<close> in it, stands between
  the header line and the rows, and no other rule line is written.
\<close>

theorem simple_rule_line:
  "print_style t = SIMPLE \<Longrightarrow> print numput t s = Inr (t', s') \<Longrightarrow>
   \<exists>ls. list_all2 (row_cells numput t' (precisions t' s)) (data t') ls \<and>
     out s' = out s @ header_line t' @ newline @ rule_line t' CHR '' '' @
              concat (map (\<lambda>cells. row_line t' cells @ newline) ls) \<and>
     CHR ''+'' \<notin> set (rule_line t' CHR '' '')"
proof -
  assume style: "print_style t = SIMPLE" and p: "print numput t s = Inr (t', s')"
  from print_InrD [OF p] style have style': "print_style t' = SIMPLE" by auto
  then have r: "rule_text t' = rule_line t' CHR '' ''" by (simp add: rule_text_def)
  from print_out [OF p] obtain ls where
    "list_all2 (row_cells numput t' (precisions t' s)) (data t') ls" and
    "out s' = out s @ header_line t' @ newline @ rule_line t' CHR '' '' @
              concat (map (\<lambda>cells. row_line t' cells @ newline) ls)"
    by (auto simp: style' r)
  moreover have "CHR ''+'' \<notin> set (rule_line t' CHR '' '')"
    using set_rule_line [of t' "CHR '' ''"] by auto
  ultimately show ?thesis by blast
qed

theorem simple_rule_line_witness:
  "print_style (setPrintStyle SIMPLE ages) = SIMPLE \<and>
   print literal_put (setPrintStyle SIMPLE ages) fresh =
     Inr (ages\<lparr>column_sizes := [3], print_style := SIMPLE\<rparr>,
          fresh\<lparr>out := ''  Age  \<newline> ----- \<newline>   16  \<newline>    4  \<newline>'', fmt_adjust := adj_right\<rparr>) \<and>
   (\<exists>ls. list_all2 (row_cells literal_put (ages\<lparr>column_sizes := [3], print_style := SIMPLE\<rparr>)
                 (precisions (ages\<lparr>column_sizes := [3], print_style := SIMPLE\<rparr>) fresh))
               (data (ages\<lparr>column_sizes := [3], print_style := SIMPLE\<rparr>)) ls \<and>
     out (fresh\<lparr>out := ''  Age  \<newline> ----- \<newline>   16  \<newline>    4  \<newline>'', fmt_adjust := adj_right\<rparr>) =
       out fresh @ header_line (ages\<lparr>column_sizes := [3], print_style := SIMPLE\<rparr>) @ newline @
       rule_line (ages\<lparr>column_sizes := [3], print_style := SIMPLE\<rparr>) CHR '' '' @
       concat (map (\<lambda>cells. row_line (ages\<lparr>column_sizes := [3], print_style := SIMPLE\<rparr>) cells @ newline) ls) \<and>
     CHR ''+'' \<notin> set (rule_line (ages\<lparr>column_sizes := [3], print_style := SIMPLE\<rparr>) CHR '' ''))"
proof -
  have a: "print_style (setPrintStyle SIMPLE ages) = SIMPLE"
    by (simp add: setPrintStyle_def)
  have b: "print literal_put (setPrintStyle SIMPLE ages) fresh =
     Inr (ages\<lparr>column_sizes := [3], print_style := SIMPLE\<rparr>,
          fresh\<lparr>out := ''  Age  \<newline> ----- \<newline>   16  \<newline>    4  \<newline>'', fmt_adjust := adj_right\<rparr>)"
    by code_simp
  show ?thesis
    by (intro conjI a b simple_rule_line [OF a b])
qed

theorem simple_rule_line_counterexample:
  "print literal_put (setPrintStyle SIMPLE ages) fresh =
     Inr (ages\<lparr>column_sizes := [3], print_style := SIMPLE\<rparr>,
          fresh\<lparr>out := ''  Age  \<newline>'' @ '' ----- \<newline>'' @ ''   16  \<newline>'' @ ''    4  \<newline>'',
                fmt_adjust := adj_right\<rparr>) \<and>
   print_rows literal_put (ages\<lparr>column_sizes := [3], print_style := SIMPLE\<rparr>) (data ages)
       (print_headers (ages\<lparr>column_sizes := [3], print_style := SIMPLE\<rparr>) fresh) =
     Inr (fresh\<lparr>out := ''  Age  \<newline>'' @ ''   16  \<newline>'' @ ''    4  \<newline>'', fmt_adjust := adj_right\<rparr>) \<and>
   ''  Age  \<newline>'' @ '' ----- \<newline>'' @ ''   16  \<newline>'' @ ''    4  \<newline>'' \<noteq>
   ''  Age  \<newline>'' @ ''   16  \<newline>'' @ ''    4  \<newline>''"
proof -
  have a: "print literal_put (setPrintStyle SIMPLE ages) fresh =
     Inr (ages\<lparr>column_sizes := [3], print_style := SIMPLE\<rparr>,
          fresh\<lparr>out := ''  Age  \<newline>'' @ '' ----- \<newline>'' @ ''   16  \<newline>'' @ ''    4  \<newline>'',
                fmt_adjust := adj_right\<rparr>)"
    by code_simp
  have b: "print_rows literal_put (ages\<lparr>column_sizes := [3], print_style := SIMPLE\<rparr>) (data ages)
       (print_headers (ages\<lparr>column_sizes := [3], print_style := SIMPLE\<rparr>) fresh) =
     Inr (fresh\<lparr>out := ''  Age  \<newline>'' @ ''   16  \<newline>'' @ ''    4  \<newline>'', fmt_adjust := adj_right\<rparr>)"
    by code_simp
  have c: "''  Age  \<newline>'' @ '' ----- \<newline>'' @ ''   16  \<newline>'' @ ''    4  \<newline>'' \<noteq>
   ''  Age  \<newline>'' @ ''   16  \<newline>'' @ ''    4  \<newline>''"
    by simp
  show ?thesis by (intro conjI a b c)
qed


text \<open>
  C7, as stated: every cell of a \<open>PERCENT\<close> column is rendered in fixed-point notation
  with two digits after the decimal point, whatever precision is configured. The flags
  act on floating-point values alone: an integer or a string in a \<open>PERCENT\<close> column is
  written as in any other column. What holds of every cell of a \<open>PERCENT\<close> column,
  whatever \<open>precision t\<close> is: a \<^verbatim>\<open>double\<close> is written by the library under the fixed
  notation and the precision 2, an integer in decimal, a string as it is.
\<close>

theorem percent_cells:
  "print numput t s = Inr (t', s') \<Longrightarrow>
   precision t' = precision t \<and>
   (\<exists>ls. list_all2
          (\<lambda>row cells. length cells = length row \<and>
             (\<forall>i < length row. column_format t' \<noteq> [] \<and> column_format t' ! i = PERCENT \<longrightarrow>
                cells ! i =
                  replicate (cell_padding t') CHR '' '' @
                  (case row ! i of
                     StrC x \<Rightarrow> pad_str (cell_adjust t' i (row ! i)) (column_sizes t' ! i) x
                   | CharPtrC x \<Rightarrow> pad_str (cell_adjust t' i (row ! i)) (column_sizes t' ! i) x
                   | IntC v \<Rightarrow> pad_num (cell_adjust t' i (row ! i)) (column_sizes t' ! i) (show_int (sint v))
                   | DblC d \<Rightarrow> pad_num (cell_adjust t' i (row ! i)) (column_sizes t' ! i)
                               (numput ff_fixed 2 d)) @
                  replicate (cell_padding t') CHR '' ''))
          (data t') ls \<and>
      out s' = out s @ (if print_style t' = SIMPLE then [] else rule_text t') @
               header_line t' @ newline @ rule_text t' @
               concat (map (\<lambda>cells. row_line t' cells @ newline @
                                      (if print_style t' = FULL then rule_text t' else [])) ls) @
               (if print_style t' = BASIC then rule_text t' else []))"
proof -
  assume p: "print numput t s = Inr (t', s')"
  from print_out [OF p] obtain ls where
    ls: "list_all2 (row_cells numput t' (precisions t' s)) (data t') ls" and
    out: "out s' = out s @ (if print_style t' = SIMPLE then [] else rule_text t') @
               header_line t' @ newline @ rule_text t' @
               concat (map (\<lambda>cells. row_line t' cells @ newline @
                                      (if print_style t' = FULL then rule_text t' else [])) ls) @
               (if print_style t' = BASIC then rule_text t' else [])"
    by blast
  from ls have "list_all2
          (\<lambda>row cells. length cells = length row \<and>
             (\<forall>i < length row. column_format t' \<noteq> [] \<and> column_format t' ! i = PERCENT \<longrightarrow>
                cells ! i =
                  replicate (cell_padding t') CHR '' '' @
                  (case row ! i of
                     StrC x \<Rightarrow> pad_str (cell_adjust t' i (row ! i)) (column_sizes t' ! i) x
                   | CharPtrC x \<Rightarrow> pad_str (cell_adjust t' i (row ! i)) (column_sizes t' ! i) x
                   | IntC v \<Rightarrow> pad_num (cell_adjust t' i (row ! i)) (column_sizes t' ! i) (show_int (sint v))
                   | DblC d \<Rightarrow> pad_num (cell_adjust t' i (row ! i)) (column_sizes t' ! i)
                               (numput ff_fixed 2 d)) @
                  replicate (cell_padding t') CHR '' ''))
          (data t') ls"
    by (rule list_all2_mono) (rule row_cells_percent)
  moreover from print_InrD [OF p] have "precision t' = precision t" by auto
  ultimately show ?thesis using out by blast
qed

theorem percent_cells_witness:
  "print probe_put rates fresh =
     Inr (rates\<lparr>column_sizes := [6, 6]\<rparr>,
          fresh\<lparr>out := ''+--------+--------+\<newline>|  City  |  Rate  |\<newline>+--------+--------+\<newline>'' @
                        ''| Oslo   | 9.5/f2 |\<newline>| Bergen |   7/f2 |\<newline>+--------+--------+\<newline>'',
                fmt_precision := 2, fmt_adjust := adj_right\<rparr>) \<and>
   column_format (rates\<lparr>column_sizes := [6, 6]\<rparr>) \<noteq> [] \<and>
   column_format (rates\<lparr>column_sizes := [6, 6]\<rparr>) ! 1 = PERCENT \<and>
   precision (rates\<lparr>column_sizes := [6, 6]\<rparr>) = [3, 5] \<and>
   (\<exists>ls. list_all2
          (\<lambda>row cells. length cells = length row \<and>
             (\<forall>i < length row. column_format (rates\<lparr>column_sizes := [6, 6]\<rparr>) \<noteq> [] \<and>
                  column_format (rates\<lparr>column_sizes := [6, 6]\<rparr>) ! i = PERCENT \<longrightarrow>
                cells ! i =
                  replicate (cell_padding (rates\<lparr>column_sizes := [6, 6]\<rparr>)) CHR '' '' @
                  (case row ! i of
                     StrC x \<Rightarrow> pad_str (cell_adjust (rates\<lparr>column_sizes := [6, 6]\<rparr>) i (row ! i))
                                (column_sizes (rates\<lparr>column_sizes := [6, 6]\<rparr>) ! i) x
                   | CharPtrC x \<Rightarrow> pad_str (cell_adjust (rates\<lparr>column_sizes := [6, 6]\<rparr>) i (row ! i))
                                (column_sizes (rates\<lparr>column_sizes := [6, 6]\<rparr>) ! i) x
                   | IntC v \<Rightarrow> pad_num (cell_adjust (rates\<lparr>column_sizes := [6, 6]\<rparr>) i (row ! i))
                                (column_sizes (rates\<lparr>column_sizes := [6, 6]\<rparr>) ! i) (show_int (sint v))
                   | DblC d \<Rightarrow> pad_num (cell_adjust (rates\<lparr>column_sizes := [6, 6]\<rparr>) i (row ! i))
                                (column_sizes (rates\<lparr>column_sizes := [6, 6]\<rparr>) ! i)
                                (probe_put ff_fixed 2 d)) @
                  replicate (cell_padding (rates\<lparr>column_sizes := [6, 6]\<rparr>)) CHR '' ''))
          (data (rates\<lparr>column_sizes := [6, 6]\<rparr>)) ls)"
proof -
  have p: "print probe_put rates fresh =
     Inr (rates\<lparr>column_sizes := [6, 6]\<rparr>,
          fresh\<lparr>out := ''+--------+--------+\<newline>|  City  |  Rate  |\<newline>+--------+--------+\<newline>'' @
                        ''| Oslo   | 9.5/f2 |\<newline>| Bergen |   7/f2 |\<newline>+--------+--------+\<newline>'',
                fmt_precision := 2, fmt_adjust := adj_right\<rparr>)"
    by code_simp
  have c: "column_format (rates\<lparr>column_sizes := [6, 6]\<rparr>) \<noteq> []"
    "column_format (rates\<lparr>column_sizes := [6, 6]\<rparr>) ! 1 = PERCENT"
    "precision (rates\<lparr>column_sizes := [6, 6]\<rparr>) = [3, 5]"
    by (simp_all add: rates_def)
  from percent_cells [OF p] have "\<exists>ls. list_all2
          (\<lambda>row cells. length cells = length row \<and>
             (\<forall>i < length row. column_format (rates\<lparr>column_sizes := [6, 6]\<rparr>) \<noteq> [] \<and>
                  column_format (rates\<lparr>column_sizes := [6, 6]\<rparr>) ! i = PERCENT \<longrightarrow>
                cells ! i =
                  replicate (cell_padding (rates\<lparr>column_sizes := [6, 6]\<rparr>)) CHR '' '' @
                  (case row ! i of
                     StrC x \<Rightarrow> pad_str (cell_adjust (rates\<lparr>column_sizes := [6, 6]\<rparr>) i (row ! i))
                                (column_sizes (rates\<lparr>column_sizes := [6, 6]\<rparr>) ! i) x
                   | CharPtrC x \<Rightarrow> pad_str (cell_adjust (rates\<lparr>column_sizes := [6, 6]\<rparr>) i (row ! i))
                                (column_sizes (rates\<lparr>column_sizes := [6, 6]\<rparr>) ! i) x
                   | IntC v \<Rightarrow> pad_num (cell_adjust (rates\<lparr>column_sizes := [6, 6]\<rparr>) i (row ! i))
                                (column_sizes (rates\<lparr>column_sizes := [6, 6]\<rparr>) ! i) (show_int (sint v))
                   | DblC d \<Rightarrow> pad_num (cell_adjust (rates\<lparr>column_sizes := [6, 6]\<rparr>) i (row ! i))
                                (column_sizes (rates\<lparr>column_sizes := [6, 6]\<rparr>) ! i)
                                (probe_put ff_fixed 2 d)) @
                  replicate (cell_padding (rates\<lparr>column_sizes := [6, 6]\<rparr>)) CHR '' ''))
          (data (rates\<lparr>column_sizes := [6, 6]\<rparr>)) ls"
    by blast
  with p c show ?thesis by blast
qed

theorem percent_cells_counterexample:
  "print probe_put votes fresh =
     Inr (votes\<lparr>column_sizes := [6]\<rparr>,
          fresh\<lparr>out := ''+--------+\<newline>|   Pct  |\<newline>+--------+\<newline>'' @ ''|      5 |'' @ ''\<newline>+--------+\<newline>'',
                fmt_precision := 2, fmt_adjust := adj_right\<rparr>) \<and>
   column_format votes ! 0 = PERCENT \<and> CHR ''.'' \<notin> set ''|      5 |''"
proof -
  have "print probe_put votes fresh =
     Inr (votes\<lparr>column_sizes := [6]\<rparr>,
          fresh\<lparr>out := ''+--------+\<newline>|   Pct  |\<newline>+--------+\<newline>'' @ ''|      5 |'' @ ''\<newline>+--------+\<newline>'',
                fmt_precision := 2, fmt_adjust := adj_right\<rparr>)"
    by code_simp
  then show ?thesis by (simp add: votes_def)
qed

text \<open>
  C8: a per-column list whose length differs from the column count makes
  \<^verbatim>\<open>setColumnFormat\<close>, \<^verbatim>\<open>setAlignmentStyle\<close> and \<^verbatim>\<open>setColumnPrecision\<close> fail with
  \<open>ConfigMismatch\<close>, and the table is as it was before the call: nothing of the list is
  stored.
\<close>

theorem setters_reject_mismatch:
  "(length fs \<noteq> length (schema t) \<longrightarrow> setColumnFormat fs t = (Some ConfigMismatch, t)) \<and>
   (length as \<noteq> length (schema t) \<longrightarrow> setAlignmentStyle as t = (Some ConfigMismatch, t)) \<and>
   (length ps \<noteq> length (schema t) \<longrightarrow> setColumnPrecision ps t = (Some ConfigMismatch, t))"
  by (simp add: setColumnFormat_def setAlignmentStyle_def setColumnPrecision_def)

theorem setters_reject_mismatch_witness:
  "length [PERCENT, AUTO, AUTO] \<noteq> length (schema demo) \<and>
   setColumnFormat [PERCENT, AUTO, AUTO] demo = (Some ConfigMismatch, demo) \<and>
   length [LEFT, RIGHT, LEFT, RIGHT, LEFT] \<noteq> length (schema demo) \<and>
   setAlignmentStyle [LEFT, RIGHT, LEFT, RIGHT, LEFT] demo = (Some ConfigMismatch, demo) \<and>
   length ([] :: int list) \<noteq> length (schema demo) \<and>
   setColumnPrecision [] demo = (Some ConfigMismatch, demo)"
  using setters_reject_mismatch [of "[PERCENT, AUTO, AUTO]" demo "[LEFT, RIGHT, LEFT, RIGHT, LEFT]" "[]"]
  by (simp add: demo_def)

text \<open>
  C9: two runs on the same headers, rows and per-column configuration that differ in
  the print style alone compute the same column widths, and \<^verbatim>\<open>print\<close> stores the same
  widths in both.
\<close>

theorem style_free_widths:
  "size_columns (setPrintStyle p t) = size_columns (setPrintStyle q t) \<and>
   (print numput (setPrintStyle p t) s = Inr (t1, s1) \<longrightarrow>
    print numput (setPrintStyle q t) s = Inr (t2, s2) \<longrightarrow>
    column_sizes t1 = column_sizes t2)"
proof -
  have e: "size_columns (setPrintStyle p t) = size_columns (setPrintStyle q t)"
    by (rule size_columns_cong) (simp_all add: setPrintStyle_def)
  show ?thesis
  proof (intro conjI impI)
    show "size_columns (setPrintStyle p t) = size_columns (setPrintStyle q t)"
      by (rule e)
  next
    assume "print numput (setPrintStyle p t) s = Inr (t1, s1)"
      and "print numput (setPrintStyle q t) s = Inr (t2, s2)"
    then obtain a b where "size_columns (setPrintStyle p t) = Inr a"
      and "t1 = setPrintStyle p t\<lparr>column_sizes := a\<rparr>"
      and "size_columns (setPrintStyle q t) = Inr b"
      and "t2 = setPrintStyle q t\<lparr>column_sizes := b\<rparr>"
      using print_InrD by blast
    with e show "column_sizes t1 = column_sizes t2"
      by simp
  qed
qed

theorem style_free_widths_witness:
  "print literal_put (setPrintStyle FULL ages) fresh =
     Inr (ages\<lparr>column_sizes := [3], print_style := FULL\<rparr>,
          fresh\<lparr>out := ''+-----+\<newline>| Age |\<newline>+-----+\<newline>|  16 |\<newline>+-----+\<newline>|   4 |\<newline>+-----+\<newline>'',
                fmt_adjust := adj_right\<rparr>) \<and>
   print literal_put (setPrintStyle EMPTY ages) fresh =
     Inr (ages\<lparr>column_sizes := [3], print_style := EMPTY\<rparr>,
          fresh\<lparr>out := ''  Age  \<newline>   16  \<newline>    4  \<newline>'', fmt_adjust := adj_right\<rparr>) \<and>
   column_sizes (ages\<lparr>column_sizes := [3], print_style := FULL\<rparr>) =
     column_sizes (ages\<lparr>column_sizes := [3], print_style := EMPTY\<rparr>)"
proof -
  have a: "print literal_put (setPrintStyle FULL ages) fresh =
     Inr (ages\<lparr>column_sizes := [3], print_style := FULL\<rparr>,
          fresh\<lparr>out := ''+-----+\<newline>| Age |\<newline>+-----+\<newline>|  16 |\<newline>+-----+\<newline>|   4 |\<newline>+-----+\<newline>'',
                fmt_adjust := adj_right\<rparr>)"
    by code_simp
  have b: "print literal_put (setPrintStyle EMPTY ages) fresh =
     Inr (ages\<lparr>column_sizes := [3], print_style := EMPTY\<rparr>,
          fresh\<lparr>out := ''  Age  \<newline>   16  \<newline>    4  \<newline>'', fmt_adjust := adj_right\<rparr>)"
    by code_simp
  note c = style_free_widths [THEN conjunct2, rule_format, OF a b]
  show ?thesis by (intro conjI a b c)
qed


text \<open>
  C10: a table on which \<^verbatim>\<open>setPrintStyle\<close> was never called, whatever rows were added and
  whatever per-column lists were set, has the style \<open>BASIC\<close>, and \<^verbatim>\<open>print\<close> writes it in
  that style: a \<open>+\<close> rule line, the header line, a \<open>+\<close> rule line, the row lines and a
  last \<open>+\<close> rule line, with \<open>|\<close> at the left edge and after every header and cell.
\<close>

theorem default_style_basic:
  "VarTable ts hs k pad = Inr t0 \<Longrightarrow> perform_all cs t0 = Inr t \<Longrightarrow>
   \<forall>c \<in> set cs. \<forall>p. c \<noteq> SetPrintStyle p \<Longrightarrow>
   print numput t s = Inr (t', s') \<Longrightarrow>
   print_style t = BASIC \<and>
   (\<exists>ls. list_all2 (row_cells numput t' (precisions t' s)) (data t') ls \<and>
      out s' = out s @ rule_line t' CHR ''+'' @ header_line t' @ newline @ rule_line t' CHR ''+'' @
               concat (map (\<lambda>cells. row_line t' cells @ newline) ls) @ rule_line t' CHR ''+'') \<and>
   header_line t' = ''|'' @ concat (map (\<lambda>i. header_text t' i @ ''|'') [0..<num_columns t']) \<and>
   (\<forall>cells. row_line t' cells = ''|'' @ concat (map (\<lambda>c. c @ ''|'') cells))"
proof -
  assume new: "VarTable ts hs k pad = Inr t0" and run: "perform_all cs t0 = Inr t"
    and quiet: "\<forall>c \<in> set cs. \<forall>p. c \<noteq> SetPrintStyle p"
    and p: "print numput t s = Inr (t', s')"
  from new have "print_style t0 = BASIC"
    by (auto simp: VarTable_def split: if_splits)
  with perform_all_style [OF run quiet] have basic: "print_style t = BASIC" by simp
  with print_InrD [OF p] have basic': "print_style t' = BASIC" by auto
  then have r: "rule_text t' = rule_line t' CHR ''+''" by (simp add: rule_text_def)
  from print_out [OF p] obtain ls where
    "list_all2 (row_cells numput t' (precisions t' s)) (data t') ls" and
    "out s' = out s @ rule_line t' CHR ''+'' @ header_line t' @ newline @ rule_line t' CHR ''+'' @
               concat (map (\<lambda>cells. row_line t' cells @ newline) ls) @ rule_line t' CHR ''+''"
    by (auto simp: basic' r)
  moreover have "header_line t' = ''|'' @ concat (map (\<lambda>i. header_text t' i @ ''|'') [0..<num_columns t'])"
    by (simp add: header_line_def edge_def basic')
  moreover have "\<forall>cells. row_line t' cells = ''|'' @ concat (map (\<lambda>c. c @ ''|'') cells)"
    by (simp add: row_line_def edge_def basic')
  ultimately show ?thesis using basic by blast
qed

theorem default_style_basic_witness:
  "VarTable (schema demo) (headers demo) 10 1 = Inr (demo\<lparr>data := []\<rparr>) \<and>
   perform_all (map AddRow (data demo)) (demo\<lparr>data := []\<rparr>) = Inr demo \<and>
   list_all (\<lambda>c. \<forall>p. c \<noteq> SetPrintStyle p) (map AddRow (data demo)) \<and>
   print literal_put demo fresh =
     Inr (demo\<lparr>column_sizes := [10, 10, 3, 10]\<rparr>, fresh\<lparr>out := demo_out, fmt_adjust := adj_left\<rparr>) \<and>
   print_style demo = BASIC \<and>
   (\<exists>ls. list_all2 (row_cells literal_put (demo\<lparr>column_sizes := [10, 10, 3, 10]\<rparr>)
                 (precisions (demo\<lparr>column_sizes := [10, 10, 3, 10]\<rparr>) fresh))
               (data (demo\<lparr>column_sizes := [10, 10, 3, 10]\<rparr>)) ls \<and>
      out (fresh\<lparr>out := demo_out, fmt_adjust := adj_left\<rparr>) =
        out fresh @ rule_line (demo\<lparr>column_sizes := [10, 10, 3, 10]\<rparr>) CHR ''+'' @
        header_line (demo\<lparr>column_sizes := [10, 10, 3, 10]\<rparr>) @ newline @
        rule_line (demo\<lparr>column_sizes := [10, 10, 3, 10]\<rparr>) CHR ''+'' @
        concat (map (\<lambda>cells. row_line (demo\<lparr>column_sizes := [10, 10, 3, 10]\<rparr>) cells @ newline) ls) @
        rule_line (demo\<lparr>column_sizes := [10, 10, 3, 10]\<rparr>) CHR ''+'') \<and>
   header_line (demo\<lparr>column_sizes := [10, 10, 3, 10]\<rparr>) =
     ''|'' @ concat (map (\<lambda>i. header_text (demo\<lparr>column_sizes := [10, 10, 3, 10]\<rparr>) i @ ''|'')
                      [0..<num_columns (demo\<lparr>column_sizes := [10, 10, 3, 10]\<rparr>)]) \<and>
   (\<forall>cells. row_line (demo\<lparr>column_sizes := [10, 10, 3, 10]\<rparr>) cells =
      ''|'' @ concat (map (\<lambda>c. c @ ''|'') cells))"
proof -
  have new: "VarTable (schema demo) (headers demo) 10 1 = Inr (demo\<lparr>data := []\<rparr>)"
    by (simp add: VarTable_def demo_def)
  have run: "perform_all (map AddRow (data demo)) (demo\<lparr>data := []\<rparr>) = Inr demo"
    by (simp add: demo_def addRow_def)
  have quiet: "\<forall>c \<in> set (map AddRow (data demo)). \<forall>p. c \<noteq> SetPrintStyle p"
    by auto
  have quiet': "list_all (\<lambda>c. \<forall>p. c \<noteq> SetPrintStyle p) (map AddRow (data demo))"
    unfolding list_all_iff using quiet by blast
  show ?thesis
    by (intro conjI new run quiet' demo_print default_style_basic [OF new run quiet demo_print])
qed


end
